theory Spec2Isabelle
  imports Complex_Main "HOL-Library.Sublist"
begin

section \<open>Python values used by the program\<close>

text \<open>
  Exceptions are values. The constructors are the exception classes that the handlers of
  \<open>sqlite_viewer.py\<close> tell apart; \<open>ValueError\<close> stands for \<open>ValueError\<close> and those of
  its subclasses that are not listed on their own, \<open>OtherError\<close> for every class that is
  neither a \<open>TypeError\<close> nor a \<open>ValueError\<close> (for instance \<open>OSError\<close>).
\<close>

datatype py_exc =
    EmptyDataError
  | ParserError
  | ValueError
  | TypeError
  | KeyError
  | OtherError

text \<open>\<open>isinstance(e, ValueError)\<close>: pandas derives both of its parser errors from it.\<close>

definition is_ValueError :: "py_exc \<Rightarrow> bool" where
  "is_ValueError e = (e = ValueError \<or> e = ParserError \<or> e = EmptyDataError)"

subsection \<open>Strings\<close>

text \<open>
  A Python string is a sequence of Unicode code points. The names of tables and columns
  are only compared, and are lists of \<open>char\<close>; the text of cells and of a search query,
  which is upper-cased, is a list over a type \<open>'u\<close> of code points, a parameter.

  \<open>s.startswith(p)\<close> and \<open>pat in s\<close>, on sequences of any kind:
\<close>

fun startswith :: "'a list \<Rightarrow> 'a list \<Rightarrow> bool" where
  "startswith s [] = True"
| "startswith [] (p # ps) = False"
| "startswith (x # xs) (p # ps) = (x = p \<and> startswith xs ps)"

fun py_in :: "'a list \<Rightarrow> 'a list \<Rightarrow> bool" where
  "py_in pat [] = (pat = [])"
| "py_in pat (x # xs) = (startswith (x # xs) pat \<or> py_in pat xs)"

text \<open>\<open>str(n)\<close> for an integer, used to print the cells of the example tables.\<close>

definition digit_char :: "nat \<Rightarrow> char" where
  "digit_char d = ''0123456789'' ! d"

fun str_nat :: "nat \<Rightarrow> string" where
  "str_nat n = (if n < 10 then [digit_char n] else str_nat (n div 10) @ [digit_char (n mod 10)])"

definition str_int :: "int \<Rightarrow> string" where
  "str_int i = (if i < 0 then CHR ''-'' # str_nat (nat (- i)) else str_nat (nat i))"

subsection \<open>Floating-point values\<close>

text \<open>
  A float64 is one of the three special values or a finite value, given by the real
  number it stands for. Comparison follows IEEE 754: every comparison with \<open>NaN\<close> is
  false. Arithmetic rounds: the function that takes a real result to the float64 nearest
  to it, or to an infinity on overflow, is a parameter of the fitter (\<open>float64\<close> below).
\<close>

datatype pyfloat = NaN | NegInf | Finite real | PosInf

fun float_lt :: "pyfloat \<Rightarrow> pyfloat \<Rightarrow> bool" where
  "float_lt NaN b = False"
| "float_lt a NaN = False"
| "float_lt PosInf b = False"
| "float_lt a NegInf = False"
| "float_lt NegInf b = True"
| "float_lt (Finite x) (Finite y) = (x < y)"
| "float_lt (Finite x) PosInf = True"

section \<open>Tables and the world outside the program\<close>

text \<open>
  A \<open>DataFrame\<close>: the column labels and the rows in order, each row the list of its
  cells. The cell type is a parameter.
\<close>

record 'c dataframe =
  columns :: "string list"
  rows :: "'c list list"

text \<open>\<open>pd.DataFrame()\<close>\<close>

definition empty_dataframe :: "'c dataframe" where
  "empty_dataframe = \<lparr>columns = [], rows = []\<rparr>"

text \<open>
  A \<open>DataframeConnection\<close> object. It defines neither \<open>__eq__\<close> nor \<open>__hash__\<close>, so
  two objects are equal only when they are the same object: \<open>object_id\<close> is the identity.
  \<open>file_type\<close> is the lower-cased extension of \<open>db_file\<close>, as \<open>__init__\<close> stores it.
\<close>

record connection =
  object_id :: nat
  db_file :: string
  file_type :: string

datatype bad_lines = OnBadLinesError | OnBadLinesWarn

text \<open>
  What the program calls and does not define: the files, read through sqlite3 and
  pandas, two pandas operations on frames, and Python's table of upper-case forms. Every
  read takes the number of reads made before it, so that reading a file again may give
  another result.
  \<^item> \<open>sqlite_master\<close>: the rows \<open>(type, name)\<close> of the catalogue of a database file;
  \<^item> \<open>excel_sheet_names\<close>: the keys of \<open>pd.read_excel(file, sheet_name=None)\<close>;
  \<^item> \<open>read_sql_query\<close>: \<open>SELECT * FROM table_name\<close>;
  \<^item> \<open>read_excel\<close>: one sheet;
  \<^item> \<open>read_csv\<close>: the file parsed with a separator and an \<open>on_bad_lines\<close> policy;
  \<^item> \<open>astype_str\<close>: the string that \<open>astype(str)\<close> gives for a cell;
  \<^item> \<open>to_upper\<close>: the upper-case form of one code point, which can be several code
    points (\<open>str.upper\<close> maps each code point of a string on its own);
  \<^item> \<open>order_rows\<close>: the rows as \<open>sort_values\<close> reorders them on the column at a
    position, ascending or descending, with the default \<open>kind\<close>, or the exception it
    raises, as \<open>TypeError\<close> on a column whose values cannot be compared.
\<close>

record ('c, 'u) world =
  sqlite_master :: "string \<Rightarrow> py_exc + (string \<times> string) list"
  excel_sheet_names :: "string \<Rightarrow> py_exc + string list"
  read_sql_query :: "nat \<Rightarrow> string \<Rightarrow> string \<Rightarrow> py_exc + 'c dataframe"
  read_excel :: "nat \<Rightarrow> string \<Rightarrow> string \<Rightarrow> py_exc + 'c dataframe"
  read_csv :: "nat \<Rightarrow> string \<Rightarrow> char \<Rightarrow> bad_lines \<Rightarrow> py_exc + 'c dataframe"
  astype_str :: "'c \<Rightarrow> 'u list"
  to_upper :: "'u \<Rightarrow> 'u list"
  order_rows :: "nat \<Rightarrow> bool \<Rightarrow> 'c list list \<Rightarrow> py_exc + 'c list list"

section \<open>The source adapter (class \<open>DataframeConnection\<close>)\<close>

definition sqlite_file_types :: "string list" where
  "sqlite_file_types = [''.db'', ''.db3'', ''.sqlite'', ''.sqlite3'']"

text \<open>
  \<open>_get_sqlite_table_names\<close>: the query \<open>SELECT name FROM sqlite_master WHERE
  type='table'\<close> over the catalogue rows, then the list comprehension.
\<close>

definition get_sqlite_table_names :: "(string \<times> string) list \<Rightarrow> string list" where
  "get_sqlite_table_names catalogue =
     (let tables = map snd (filter (\<lambda>row. fst row = ''table'') catalogue)
      in filter (\<lambda>name. \<not> startswith name ''sqlite_autoindex_'') tables)"

definition get_table_or_sheet_names :: "('c, 'u) world \<Rightarrow> connection \<Rightarrow> py_exc + string list" where
  "get_table_or_sheet_names w self =
     (if file_type self \<in> set sqlite_file_types then
        (case sqlite_master w (db_file self) of
           Inl e \<Rightarrow> Inl e
         | Inr catalogue \<Rightarrow> Inr (get_sqlite_table_names catalogue))
      else if file_type self = ''.xlsx'' then excel_sheet_names w (db_file self)
      else if file_type self = ''.csv'' then Inr [''CSV file'']
      else Inl ValueError)"

text \<open>
  \<open>_get_csv_dataframe\<close>, for a reader \<open>rd\<close> of the file. The result comes with the
  list of the calls of \<open>read_csv\<close> that were made, as (separator, policy). The handlers
  are tried in the order of the source: \<open>EmptyDataError\<close> first, then \<open>(TypeError,
  ValueError)\<close>; any other exception propagates.
\<close>

definition get_csv_dataframe ::
  "(char \<Rightarrow> bad_lines \<Rightarrow> py_exc + 'c dataframe) \<Rightarrow> (py_exc + 'c dataframe) \<times> (char \<times> bad_lines) list" where
  "get_csv_dataframe rd =
     (case rd CHR '','' OnBadLinesError of
        Inr df \<Rightarrow> (Inr df, [(CHR '','', OnBadLinesError)])
      | Inl e \<Rightarrow>
          if e = EmptyDataError then (Inr empty_dataframe, [(CHR '','', OnBadLinesError)])
          else if e = TypeError \<or> is_ValueError e then
            (rd CHR '';'' OnBadLinesWarn,
             [(CHR '','', OnBadLinesError), (CHR '';'', OnBadLinesWarn)])
          else (Inl e, [(CHR '','', OnBadLinesError)]))"

text \<open>The body of \<open>get_df\<close>; \<open>n\<close> is the number of reads made so far.\<close>

definition get_df_body :: "('c, 'u) world \<Rightarrow> connection \<Rightarrow> nat \<Rightarrow> string \<Rightarrow> py_exc + 'c dataframe" where
  "get_df_body w self n table_name =
     (if file_type self \<in> set sqlite_file_types then read_sql_query w n (db_file self) table_name
      else if file_type self = ''.xlsx'' then read_excel w n (db_file self) table_name
      else if file_type self = ''.csv'' then fst (get_csv_dataframe (read_csv w n (db_file self)))
      else Inl ValueError)"

section \<open>The view engine\<close>

text \<open>
  \<open>str.upper\<close>, and one element of \<open>Series.str.contains(pat, case=False,
  regex=False)\<close>: pandas compares the upper-cased pattern with the upper-cased element,
  \<open>pat.upper() in x.upper()\<close>.
\<close>

definition upper :: "('c, 'u) world \<Rightarrow> 'u list \<Rightarrow> 'u list" where
  "upper w s = concat (map (to_upper w) s)"

definition str_contains :: "('c, 'u) world \<Rightarrow> 'u list \<Rightarrow> 'u list \<Rightarrow> bool" where
  "str_contains w pat x = py_in (upper w pat) (upper w x)"

text \<open>
  Line 70, inside out: \<open>df.astype(str).apply(... str.contains ...)\<close> is the frame of
  booleans, \<open>.any(axis=1)\<close> the mask with one boolean a row, \<open>df[mask]\<close> the rows whose
  boolean is true.
\<close>

definition contains_frame :: "('c, 'u) world \<Rightarrow> 'u list \<Rightarrow> 'c dataframe \<Rightarrow> bool list list" where
  "contains_frame w query df =
     map (map (\<lambda>c. str_contains w query (astype_str w c))) (rows df)"

definition any_axis1 :: "bool list list \<Rightarrow> bool list" where
  "any_axis1 frame = map (list_ex (\<lambda>b. b)) frame"

definition boolean_index :: "'c dataframe \<Rightarrow> bool list \<Rightarrow> 'c dataframe" where
  "boolean_index df keep = df\<lparr>rows := map fst (filter snd (zip (rows df) keep))\<rparr>"

definition search_rows :: "('c, 'u) world \<Rightarrow> 'u list \<Rightarrow> 'c dataframe \<Rightarrow> 'c dataframe" where
  "search_rows w query df = boolean_index df (any_axis1 (contains_frame w query df))"

text \<open>
  \<open>df.sort_values(by=label, ascending=...)\<close>: a label that is not a column raises
  \<open>KeyError\<close>, one that names several columns \<open>ValueError\<close>; otherwise the rows are
  reordered by the library on the position of the label, and an exception of the library
  propagates.
\<close>

fun index_of :: "'a \<Rightarrow> 'a list \<Rightarrow> nat" where
  "index_of x [] = 0"
| "index_of x (y # ys) = (if x = y then 0 else Suc (index_of x ys))"

definition sort_values :: "('c, 'u) world \<Rightarrow> 'c dataframe \<Rightarrow> string \<Rightarrow> bool \<Rightarrow> py_exc + 'c dataframe" where
  "sort_values w df label ascending =
     (if label \<notin> set (columns df) then Inl KeyError
      else if 1 < count_list (columns df) label then Inl ValueError
      else (case order_rows w (index_of label (columns df)) ascending (rows df) of
              Inl e \<Rightarrow> Inl e
            | Inr sorted_rows \<Rightarrow> Inr (df\<lparr>rows := sorted_rows\<rparr>)))"

text \<open>
  Lines 69 to 73 of \<open>get_filtered_sorted_df\<close>, on the frame that \<open>get_df\<close> returned.
  \<open>if search_query:\<close> and \<open>if sort_column:\<close> test truthiness: \<open>None\<close> and the empty
  string both skip the step.
\<close>

definition apply_search :: "('c, 'u) world \<Rightarrow> 'c dataframe \<Rightarrow> 'u list option \<Rightarrow> 'c dataframe" where
  "apply_search w df query =
     (case query of None \<Rightarrow> df | Some q \<Rightarrow> if q = [] then df else search_rows w q df)"

definition filter_sort ::
  "('c, 'u) world \<Rightarrow> 'c dataframe \<Rightarrow> string option \<Rightarrow> bool \<Rightarrow> 'u list option
     \<Rightarrow> py_exc + 'c dataframe" where
  "filter_sort w df sort_col order query =
     (let df1 = apply_search w df query
      in case sort_col of None \<Rightarrow> Inr df1
         | Some c \<Rightarrow> if c = [] then Inr df1 else sort_values w df1 c order)"

section \<open>The table cache\<close>

text \<open>
  \<open>functools.lru_cache(maxsize=1)\<close> on \<open>get_df\<close> and on \<open>get_filtered_sorted_df\<close>: each
  keeps at most one (key, value) pair. The key is made of the arguments of the call,
  \<open>self\<close> included. \<open>loads\<close> counts the executions of the body of \<open>get_df\<close> and \<open>views\<close>
  those of the body of \<open>get_filtered_sorted_df\<close>.
\<close>

type_synonym 'u view_key = "connection \<times> string \<times> string option \<times> bool \<times> 'u list option"

record ('c, 'u) caches =
  df_cache :: "((connection \<times> string) \<times> 'c dataframe) option"
  view_cache :: "('u view_key \<times> 'c dataframe) option"
  loads :: nat
  views :: nat

definition cache_get :: "('k \<times> 'v) option \<Rightarrow> 'k \<Rightarrow> 'v option" where
  "cache_get slot key =
     (case slot of None \<Rightarrow> None | Some (k, v) \<Rightarrow> if k = key then Some v else None)"

text \<open>
  The wrapper of \<open>lru_cache\<close>: on a hit the stored value is returned; on a miss the body
  runs, and its result is stored in the single slot when it returns. A body that raises
  stores nothing.
\<close>

definition get_df ::
  "('c, 'u) world \<Rightarrow> connection \<Rightarrow> string \<Rightarrow> ('c, 'u) caches
     \<Rightarrow> (py_exc + 'c dataframe) \<times> ('c, 'u) caches" where
  "get_df w self table_name s =
     (case cache_get (df_cache s) (self, table_name) of
        Some v \<Rightarrow> (Inr v, s)
      | None \<Rightarrow>
          (case get_df_body w self (loads s) table_name of
             Inl e \<Rightarrow> (Inl e, s\<lparr>loads := loads s + 1\<rparr>)
           | Inr v \<Rightarrow> (Inr v, s\<lparr>df_cache := Some ((self, table_name), v), loads := loads s + 1\<rparr>)))"

definition get_filtered_sorted_df_body ::
  "('c, 'u) world \<Rightarrow> connection \<Rightarrow> string \<Rightarrow> string option \<Rightarrow> bool \<Rightarrow> 'u list option
     \<Rightarrow> ('c, 'u) caches \<Rightarrow> (py_exc + 'c dataframe) \<times> ('c, 'u) caches" where
  "get_filtered_sorted_df_body w self table_name sort_col order query s =
     (case get_df w self table_name s of
        (Inl e, s1) \<Rightarrow> (Inl e, s1)
      | (Inr df, s1) \<Rightarrow> (filter_sort w df sort_col order query, s1))"

definition get_filtered_sorted_df ::
  "('c, 'u) world \<Rightarrow> connection \<Rightarrow> string \<Rightarrow> string option \<Rightarrow> bool \<Rightarrow> 'u list option
     \<Rightarrow> ('c, 'u) caches \<Rightarrow> (py_exc + 'c dataframe) \<times> ('c, 'u) caches" where
  "get_filtered_sorted_df w self table_name sort_col order query s =
     (case cache_get (view_cache s) (self, table_name, sort_col, order, query) of
        Some v \<Rightarrow> (Inr v, s)
      | None \<Rightarrow>
          (case get_filtered_sorted_df_body w self table_name sort_col order query
                  (s\<lparr>views := views s + 1\<rparr>) of
             (Inl e, s1) \<Rightarrow> (Inl e, s1)
           | (Inr v, s1) \<Rightarrow>
               (Inr v, s1\<lparr>view_cache := Some ((self, table_name, sort_col, order, query), v)\<rparr>)))"

section \<open>The viewer's view state (class \<open>SQLiteViewer\<close>)\<close>

text \<open>
  The fields of \<open>SQLiteViewer\<close> that the event handlers read and write. \<open>db\<close> is the open
  connection, \<open>None\<close> before a file is opened.
\<close>

record viewer =
  db :: "connection option"
  current_page :: int
  total_pages :: int
  sort_column :: "string option"
  sort_order :: bool
  search_query :: "string option"
  items_per_page :: int

text \<open>The arguments of one call of \<open>load_table_data\<close>, which starts the worker thread.\<close>

record load_request =
  req_table_name :: string
  req_page_number :: int
  req_page_size :: int
  req_sort_column :: "string option"
  req_sort_order :: bool
  req_search_query :: "string option"
  req_set_status :: bool

text \<open>
  The call the handlers make after updating the state:
  \<open>load_table_data(table_name=selection, page_number=self.current_page,
  page_size=self.items_per_page, sort_column=self.sort_column, sort_order=self.sort_order,
  search_query=self.search_query)\<close>.
\<close>

definition load_table_data :: "string \<Rightarrow> viewer \<Rightarrow> bool \<Rightarrow> load_request" where
  "load_table_data selection s set_status =
     \<lparr>req_table_name = selection, req_page_number = current_page s,
      req_page_size = items_per_page s, req_sort_column = sort_column s,
      req_sort_order = sort_order s, req_search_query = search_query s,
      req_set_status = set_status\<rparr>"

text \<open>The identifiers an event of \<open>on_page_change\<close> can carry: the two menu entries and
  the "Next page" button, whose identifier is neither.\<close>

datatype event_id = ID_FORWARD | ID_BACKWARD | ID_BUTTON

text \<open>
  \<open>on_page_change\<close>. Python's \<open>%\<close> with a positive divisor is the floor modulus, which is
  \<open>mod\<close> on \<open>int\<close>.
\<close>

definition on_page_change :: "event_id \<Rightarrow> string \<Rightarrow> viewer \<Rightarrow> viewer \<times> load_request option" where
  "on_page_change ev selection s =
     (if db s \<noteq> None \<and> total_pages s > 1 then
        let s' = s\<lparr>current_page :=
                   ((if ev = ID_BACKWARD then current_page s - 2 else current_page s)
                      mod total_pages s) + 1\<rparr>
        in (s', Some (load_table_data selection s' True))
      else (s, None))"

text \<open>\<open>on_column_click\<close>; \<open>column\<close> is the text of the clicked header.\<close>

definition on_column_click :: "string \<Rightarrow> string \<Rightarrow> viewer \<Rightarrow> viewer \<times> load_request" where
  "on_column_click column selection s =
     (let s1 = (if sort_column s = Some column then
                  (if \<not> sort_order s then s\<lparr>sort_column := None\<rparr> else s)\<lparr>sort_order := False\<rparr>
                else s\<lparr>sort_column := Some column, sort_order := True\<rparr>);
          s2 = s1\<lparr>current_page := 1\<rparr>
      in (s2, load_table_data selection s2 False))"

section \<open>The distribution fitter\<close>

text \<open>
  The two calls into \<open>scipy.stats\<close>, for a distribution name:
  \<open>getattr(st, name).fit(data)\<close> and \<open>getattr(st, name).logpdf(data, *params).sum()\<close>.
  Either may raise. With them comes the rounding of float64 arithmetic: \<open>float64 x\<close> is
  the float64 that the real number \<open>x\<close> rounds to, an infinity when it overflows.
\<close>

record scipy_stats =
  st_fit :: "string \<Rightarrow> pyfloat list \<Rightarrow> py_exc + pyfloat list"
  st_logpdf_sum :: "string \<Rightarrow> pyfloat list \<Rightarrow> pyfloat list \<Rightarrow> py_exc + pyfloat"
  float64 :: "real \<Rightarrow> pyfloat"

definition dist_names :: "string list" where
  "dist_names = [''norm'', ''expon'', ''pareto'', ''lognorm'', ''gamma'', ''beta'', ''uniform'',
     ''dweibull'']"

text \<open>\<open>Series.dropna()\<close> on a numeric column, where a missing value is \<open>NaN\<close>.\<close>

definition dropna :: "pyfloat list \<Rightarrow> pyfloat list" where
  "dropna column = filter (\<lambda>x. x \<noteq> NaN) column"

text \<open>
  \<open>2 * ll\<close> for a float64 \<open>ll\<close>, and \<open>n - y\<close> for a Python integer \<open>n\<close> and a float64
  \<open>y\<close>; the integer, twice the length of a parameter tuple, is itself a float64. Each
  operation rounds its result.
\<close>

definition float_twice :: "scipy_stats \<Rightarrow> pyfloat \<Rightarrow> pyfloat" where
  "float_twice st ll =
     (case ll of
        NaN \<Rightarrow> NaN
      | NegInf \<Rightarrow> NegInf
      | PosInf \<Rightarrow> PosInf
      | Finite x \<Rightarrow> float64 st (2 * x))"

definition int_minus_float :: "scipy_stats \<Rightarrow> int \<Rightarrow> pyfloat \<Rightarrow> pyfloat" where
  "int_minus_float st n y =
     (case y of
        NaN \<Rightarrow> NaN
      | NegInf \<Rightarrow> PosInf
      | PosInf \<Rightarrow> NegInf
      | Finite x \<Rightarrow> float64 st (of_int n - x))"

text \<open>\<open>2 * len(params) - 2 * ll\<close>\<close>

definition aic_of :: "scipy_stats \<Rightarrow> nat \<Rightarrow> pyfloat \<Rightarrow> pyfloat" where
  "aic_of st k ll = int_minus_float st (2 * int k) (float_twice st ll)"

text \<open>The three variables \<open>best_dist, best_params, best_aic\<close> of the worker.\<close>

record best =
  best_dist :: "string option"
  best_params :: "pyfloat list option"
  best_aic :: pyfloat

text \<open>The first three lines of the loop body: the name, its parameters and its AIC.\<close>

definition score :: "scipy_stats \<Rightarrow> pyfloat list \<Rightarrow> string \<Rightarrow> py_exc + string \<times> pyfloat list \<times> pyfloat" where
  "score st data dist_name =
     (case st_fit st dist_name data of
        Inl e \<Rightarrow> Inl e
      | Inr params \<Rightarrow>
          (case st_logpdf_sum st dist_name data params of
             Inl e \<Rightarrow> Inl e
           | Inr ll \<Rightarrow> Inr (dist_name, params, aic_of st (length params) ll)))"

text \<open>The loop of the worker. An exception leaves the loop: the \<open>try\<close> is around it.\<close>

fun fit_loop :: "scipy_stats \<Rightarrow> pyfloat list \<Rightarrow> string list \<Rightarrow> best \<Rightarrow> py_exc + best" where
  "fit_loop st data [] b = Inr b"
| "fit_loop st data (d # ds) b =
     (case score st data d of
        Inl e \<Rightarrow> Inl e
      | Inr (name, params, aic) \<Rightarrow>
          fit_loop st data ds
            (if float_lt aic (best_aic b)
             then \<lparr>best_dist = Some name, best_params = Some params, best_aic = aic\<rparr>
             else b))"

text \<open>
  \<open>_worker\<close> of \<open>on_best_fitted_distribution\<close>, for the selected column: \<open>Inl e\<close> when it
  shows the error message and raises \<open>e\<close> again, \<open>Inr b\<close> when it hands \<open>best_dist\<close> and
  \<open>best_params\<close> to the plot.
\<close>

definition worker :: "scipy_stats \<Rightarrow> pyfloat list \<Rightarrow> py_exc + best" where
  "worker st column =
     fit_loop st (dropna column) dist_names
       \<lparr>best_dist = None, best_params = None, best_aic = PosInf\<rparr>"

text \<open>
  The end of \<open>show_column_selection_dialog\<close> once the dialog is confirmed, for the rows of
  the chosen frame: \<open>None\<close> is the message box asking for a table with at least
  \<open>min_data_count\<close> rows, after which the function returns; otherwise the callback runs.
\<close>

definition show_column_selection_dialog :: "nat \<Rightarrow> ('a list \<Rightarrow> 'r) \<Rightarrow> 'a list \<Rightarrow> 'r option" where
  "show_column_selection_dialog min_data_count callback df_rows =
     (if length df_rows < min_data_count then None else Some (callback df_rows))"

text \<open>The menu entry "Best fitted distribution": \<open>min_data_count=10\<close>.\<close>

definition best_fitted_distribution :: "scipy_stats \<Rightarrow> pyfloat list \<Rightarrow> (py_exc + best) option" where
  "best_fitted_distribution st column = show_column_selection_dialog 10 (worker st) column"

section \<open>Notions of the specification\<close>

text \<open>
  A string contains a query, letter case set aside, when its upper-case form contains
  the upper-case form of the query. Two code points are the same letter when they have
  the same upper-case form, and a string contains a query letter by letter when some
  contiguous part of it agrees with the query, letter for letter. The two notions meet
  on text in which every code point has one code point as its upper-case form.
\<close>

definition ci_contains :: "('c, 'u) world \<Rightarrow> 'u list \<Rightarrow> 'u list \<Rightarrow> bool" where
  "ci_contains w query s = (\<exists>pre post. upper w s = pre @ upper w query @ post)"

definition same_letter :: "('c, 'u) world \<Rightarrow> 'u \<Rightarrow> 'u \<Rightarrow> bool" where
  "same_letter w c d = (to_upper w c = to_upper w d)"

definition ci_substring :: "('c, 'u) world \<Rightarrow> 'u list \<Rightarrow> 'u list \<Rightarrow> bool" where
  "ci_substring w query s =
     (\<exists>pre mid post. s = pre @ mid @ post \<and> list_all2 (same_letter w) mid query)"

definition simple_case :: "('c, 'u) world \<Rightarrow> 'u list \<Rightarrow> bool" where
  "simple_case w s = (\<forall>c \<in> set s. length (to_upper w c) = 1)"

text \<open>
  The selection among scored candidates (name, parameters, AIC), in the order of the
  catalogue: the selected candidate is in the list with an AIC below plus infinity, no
  candidate's AIC is below it, and no candidate listed before it has the same AIC.
\<close>

definition selects :: "best \<Rightarrow> (string \<times> pyfloat list \<times> pyfloat) list \<Rightarrow> bool" where
  "selects b cands =
     (\<exists>d p pre post. best_dist b = Some d \<and> best_params b = Some p
        \<and> cands = pre @ (d, p, best_aic b) # post
        \<and> float_lt (best_aic b) PosInf
        \<and> (\<forall>c \<in> set cands. \<not> float_lt (snd (snd c)) (best_aic b))
        \<and> (\<forall>c \<in> set pre. snd (snd c) \<noteq> best_aic b))"

text \<open>The state of the loop while no candidate seen so far had an AIC below plus infinity.\<close>

definition unselected :: "best \<Rightarrow> (string \<times> pyfloat list \<times> pyfloat) list \<Rightarrow> bool" where
  "unselected b seen =
     (best_dist b = None \<and> best_aic b = PosInf
      \<and> (\<forall>c \<in> set seen. \<not> float_lt (snd (snd c)) PosInf))"

section \<open>Example inputs\<close>

text \<open>A viewer showing page 3 of 4, unsorted.\<close>

definition demo_connection :: connection where
  "demo_connection = \<lparr>object_id = 0, db_file = ''people.db'', file_type = ''.db''\<rparr>"

definition demo_viewer :: viewer where
  "demo_viewer = \<lparr>db = Some demo_connection, current_page = 3, total_pages = 4,
     sort_column = None, sort_order = False, search_query = None, items_per_page = 250\<rparr>"

text \<open>Cells of the example tables: integers, text and the missing value.\<close>

datatype cell = IntCell int | StrCell string | Null

definition cell_str :: "cell \<Rightarrow> string" where
  "cell_str c = (case c of IntCell i \<Rightarrow> str_int i | StrCell s \<Rightarrow> s | Null \<Rightarrow> ''None'')"

text \<open>
  The upper-case forms of the example world: the 26 letters of ASCII, \<open>e\<close> with acute
  accent (code point 233, upper-case 201) and the sharp s (code point 223), whose
  upper-case form is \<open>SS\<close>; every other code point is its own upper-case form.
\<close>

definition lower_letters :: string where
  "lower_letters = ''abcdefghijklmnopqrstuvwxyz''"

definition upper_letters :: string where
  "upper_letters = ''ABCDEFGHIJKLMNOPQRSTUVWXYZ''"

definition upper_char :: "char \<Rightarrow> char" where
  "upper_char c = (case map_of (zip lower_letters upper_letters) c of Some u \<Rightarrow> u | None \<Rightarrow> c)"

definition demo_upper :: "char \<Rightarrow> string" where
  "demo_upper c =
     (if c = CHR 0xDF then ''SS''
      else if c = CHR 0xE9 then [CHR 0xC9]
      else [upper_char c])"

text \<open>
  The sort of the example world: on a column that holds both integers and text it raises
  \<open>TypeError\<close>; otherwise it sorts the rows on the integer in the column. Descending
  order is taken on the reversed rows and reversed again.
\<close>

definition cell_rank :: "cell \<Rightarrow> int" where
  "cell_rank c = (case c of IntCell i \<Rightarrow> i | StrCell s \<Rightarrow> 0 | Null \<Rightarrow> 0)"

definition is_int_cell :: "cell \<Rightarrow> bool" where
  "is_int_cell c = (case c of IntCell i \<Rightarrow> True | StrCell s \<Rightarrow> False | Null \<Rightarrow> False)"

definition is_str_cell :: "cell \<Rightarrow> bool" where
  "is_str_cell c = (case c of IntCell i \<Rightarrow> False | StrCell s \<Rightarrow> True | Null \<Rightarrow> False)"

definition demo_order_rows :: "nat \<Rightarrow> bool \<Rightarrow> cell list list \<Rightarrow> py_exc + cell list list" where
  "demo_order_rows i ascending rs =
     (if list_ex (\<lambda>r. is_int_cell (r ! i)) rs \<and> list_ex (\<lambda>r. is_str_cell (r ! i)) rs
      then Inl TypeError
      else if ascending then Inr (sort_key (\<lambda>r. cell_rank (r ! i)) rs)
      else Inr (rev (sort_key (\<lambda>r. cell_rank (r ! i)) (rev rs))))"

definition people :: "cell dataframe" where
  "people = \<lparr>columns = [''id'', ''name'', ''age''],
     rows = [[IntCell 1, StrCell ''Ada'', IntCell 36],
             [IntCell 2, StrCell ''Bob'', IntCell 25],
             [IntCell 3, StrCell ''adam'', IntCell 36],
             [IntCell 4, StrCell ''Eve'', IntCell 25]]\<rparr>"

definition people_later :: "cell dataframe" where
  "people_later = people\<lparr>rows := rows people @ [[IntCell 5, StrCell ''Dan'', IntCell 41]]\<rparr>"

text \<open>A table whose only column has the empty string as its label.\<close>

definition unnamed_column :: "cell dataframe" where
  "unnamed_column = \<lparr>columns = [[]], rows = [[IntCell 2], [IntCell 1]]\<rparr>"

text \<open>
  A database file with the table \<open>people\<close>, an automatic index and the sequence table
  that SQLite keeps for \<open>AUTOINCREMENT\<close>. The first read of \<open>people\<close> gives four rows,
  every later read five. The CSV file of this world is semicolon-delimited: the comma
  parse raises \<open>ParserError\<close>.
\<close>

definition demo_world :: "(cell, char) world" where
  "demo_world = \<lparr>
     sqlite_master = (\<lambda>f. Inr [(''table'', ''people''), (''index'', ''sqlite_autoindex_people_1''),
                            (''table'', ''sqlite_sequence''), (''table'', ''towns'')]),
     excel_sheet_names = (\<lambda>f. Inl OtherError),
     read_sql_query = (\<lambda>n f t. if t = ''people'' then Inr (if n = 0 then people else people_later)
                                else Inl OtherError),
     read_excel = (\<lambda>n f t. Inl OtherError),
     read_csv = (\<lambda>n f sep policy. if sep = CHR '';'' then Inr people else Inl ParserError),
     astype_str = cell_str,
     to_upper = demo_upper,
     order_rows = demo_order_rows\<rparr>"

definition empty_caches :: "(cell, char) caches" where
  "empty_caches = \<lparr>df_cache = None, view_cache = None, loads = 0, views = 0\<rparr>"

text \<open>A column of ten values, and one of ten rows of which the last is missing.\<close>

definition ten_values :: "pyfloat list" where
  "ten_values = map Finite [1, 2, 3, 4, 5, 6, 7, 8, 9, 10]"

definition nine_values :: "pyfloat list" where
  "nine_values = map Finite [1, 2, 3, 4, 5, 6, 7, 8, 9] @ [NaN]"

text \<open>
  Two behaviours of \<open>scipy.stats\<close>. In the first every family fits, with two
  parameters (three for \<open>gamma\<close>) and log-likelihood -30, but -20 for \<open>norm\<close> and -19
  for \<open>gamma\<close>. In the second \<open>expon\<close> raises. The numbers that occur are float64
  values, which rounding leaves as they are.
\<close>

definition stats_all_fit :: scipy_stats where
  "stats_all_fit = \<lparr>
     st_fit = (\<lambda>name data. Inr (if name = ''gamma'' then [Finite 1, Finite 0, Finite 1]
                                 else [Finite 0, Finite 1])),
     st_logpdf_sum = (\<lambda>name data params.
        Inr (Finite (if name = ''norm'' then - 20 else if name = ''gamma'' then - 19 else - 30))),
     float64 = Finite\<rparr>"

definition stats_expon_raises :: scipy_stats where
  "stats_expon_raises = stats_all_fit\<lparr>
     st_fit := (\<lambda>name data. if name = ''expon'' then Inl OtherError
                             else Inr [Finite 0, Finite 1])\<rparr>"

section \<open>Facts about strings\<close>

lemma startswith_prefix: "startswith s p = prefix p s"
  by (induction s p rule: startswith.induct) auto

lemma py_in_sublist: "py_in pat s = (\<exists>pre post. s = pre @ pat @ post)"
proof (induction s)
  case Nil
  then show ?case by auto
next
  case (Cons x xs)
  have "(\<exists>pre post. x # xs = pre @ pat @ post)
      = (prefix pat (x # xs) \<or> (\<exists>pre post. xs = pre @ pat @ post))"
    (is "?L = ?R")
  proof
    assume ?L
    then obtain pre post where e: "x # xs = pre @ pat @ post" by blast
    show ?R
    proof (cases pre)
      case Nil
      with e show ?thesis by (auto simp: prefix_def)
    next
      case (Cons a pre')
      with e have "xs = pre' @ pat @ post" by simp
      then show ?thesis by blast
    qed
  next
    assume ?R
    then show ?L
    proof
      assume "prefix pat (x # xs)"
      then obtain post where "x # xs = pat @ post" by (auto simp: prefix_def)
      then have "x # xs = [] @ pat @ post" by simp
      then show ?L by blast
    next
      assume "\<exists>pre post. xs = pre @ pat @ post"
      then obtain pre post where "xs = pre @ pat @ post" by blast
      then have "x # xs = (x # pre) @ pat @ post" by simp
      then show ?L by blast
    qed
  qed
  with Cons show ?case by (simp add: startswith_prefix)
qed

lemma map_sublist:
  "(\<exists>pre post. map f s = pre @ map f q @ post)
     = (\<exists>pre mid post. s = pre @ mid @ post \<and> map f mid = map f q)"
proof
  assume "\<exists>pre post. map f s = pre @ map f q @ post"
  then obtain pre post where "map f s = pre @ (map f q @ post)" by auto
  then have "\<exists>us vs. s = us @ vs \<and> pre = map f us \<and> map f q @ post = map f vs"
    by (simp only: map_eq_append_conv)
  then obtain us vs where s: "s = us @ vs" and vs: "map f vs = map f q @ post"
    by auto
  from vs have "\<exists>mid ws. vs = mid @ ws \<and> map f q = map f mid \<and> post = map f ws"
    by (simp only: map_eq_append_conv)
  then obtain mid ws where "vs = mid @ ws" and "map f mid = map f q"
    by auto
  with s show "\<exists>pre mid post. s = pre @ mid @ post \<and> map f mid = map f q" by blast
next
  assume "\<exists>pre mid post. s = pre @ mid @ post \<and> map f mid = map f q"
  then obtain pre mid post where "s = pre @ mid @ post" and "map f mid = map f q" by blast
  then have "map f s = map f pre @ map f q @ map f post" by simp
  then show "\<exists>pre post. map f s = pre @ map f q @ post" by blast
qed

lemma str_contains_ci: "str_contains w query s = ci_contains w query s"
  by (simp add: str_contains_def ci_contains_def py_in_sublist)

lemma boolean_index_filter:
  "map fst (filter snd (zip xs (map P xs))) = filter P xs"
  by (induction xs) auto

lemma search_rows_filter:
  "search_rows w query df =
     df\<lparr>rows := filter (\<lambda>r. \<exists>c \<in> set r. ci_contains w query (astype_str w c)) (rows df)\<rparr>"
proof -
  have "any_axis1 (contains_frame w query df)
      = map (\<lambda>r. \<exists>c \<in> set r. ci_contains w query (astype_str w c)) (rows df)"
    by (simp add: any_axis1_def contains_frame_def list_ex_iff str_contains_ci)
  then show ?thesis
    by (simp add: search_rows_def boolean_index_def boolean_index_filter)
qed

text \<open>On text whose code points have single upper-case forms, \<open>upper\<close> maps code points.\<close>

lemma upper_simple:
  "simple_case w s \<Longrightarrow> upper w s = map (\<lambda>c. hd (to_upper w c)) s"
proof (induction s)
  case Nil
  then show ?case by (simp add: upper_def)
next
  case (Cons c s)
  then have one: "length (to_upper w c) = 1" and rest: "simple_case w s"
    by (simp_all add: simple_case_def)
  from one obtain u where "to_upper w c = [u]"
    by (cases "to_upper w c") auto
  with Cons.IH [OF rest] show ?case by (simp add: upper_def)
qed

lemma same_letter_simple:
  assumes "length (to_upper w c) = 1" and "length (to_upper w d) = 1"
  shows "(hd (to_upper w c) = hd (to_upper w d)) = same_letter w c d"
proof -
  from assms obtain u v where "to_upper w c = [u]" and "to_upper w d = [v]"
    by (cases "to_upper w c"; cases "to_upper w d") auto
  then show ?thesis by (simp add: same_letter_def)
qed

lemma ci_contains_letters:
  assumes "simple_case w query" and "simple_case w s"
  shows "ci_contains w query s = ci_substring w query s"
proof -
  let ?g = "\<lambda>c. hd (to_upper w c)"
  have letters: "map ?g mid = map ?g query \<longleftrightarrow> list_all2 (same_letter w) mid query"
    if "set mid \<subseteq> set s" for mid
  proof -
    have "(map ?g mid = map ?g query) = list_all2 (=) (map ?g mid) (map ?g query)"
      by (simp add: list.rel_eq)
    also have "\<dots> = list_all2 (\<lambda>x y. ?g x = ?g y) mid query"
      by (simp add: list.rel_map)
    also have "\<dots> = list_all2 (same_letter w) mid query"
    proof (rule list.rel_cong)
      fix x y assume "x \<in> set mid" and "y \<in> set query"
      then have "length (to_upper w x) = 1" and "length (to_upper w y) = 1"
        using assms that by (auto simp: simple_case_def)
      then show "(?g x = ?g y) = same_letter w x y" by (rule same_letter_simple)
    qed simp_all
    finally show ?thesis .
  qed
  have "ci_contains w query s = (\<exists>pre post. map ?g s = pre @ map ?g query @ post)"
    using assms by (simp add: ci_contains_def upper_simple)
  also have "\<dots> = (\<exists>pre mid post. s = pre @ mid @ post \<and> map ?g mid = map ?g query)"
    by (rule map_sublist)
  also have "\<dots> = (\<exists>pre mid post. s = pre @ mid @ post \<and> list_all2 (same_letter w) mid query)"
  proof -
    have "(s = pre @ mid @ post \<and> map ?g mid = map ?g query)
        = (s = pre @ mid @ post \<and> list_all2 (same_letter w) mid query)" for pre mid post
    proof (cases "s = pre @ mid @ post")
      case True
      then have "set mid \<subseteq> set s" by auto
      from letters [OF this] show ?thesis by simp
    next
      case False
      then show ?thesis by simp
    qed
    then show ?thesis by simp
  qed
  finally show ?thesis by (simp add: ci_substring_def)
qed

section \<open>Properties of the distribution fitter\<close>

lemma float_lt_irrefl: "\<not> float_lt a a"
  by (cases a) simp_all

lemma float_lt_trans: "float_lt a b \<Longrightarrow> float_lt b c \<Longrightarrow> float_lt a c"
  by (cases a; cases b; cases c) simp_all

lemma float_lt_PosInf: "float_lt a b \<Longrightarrow> float_lt a PosInf"
  by (cases a; cases b) simp_all

text \<open>One step of the loop keeps the selection right for the candidates seen so far.\<close>

lemma selects_step:
  assumes "selects b seen \<or> unselected b seen"
  shows "selects (if float_lt a (best_aic b)
                  then \<lparr>best_dist = Some n, best_params = Some p, best_aic = a\<rparr> else b)
           (seen @ [(n, p, a)])
       \<or> unselected (if float_lt a (best_aic b)
                  then \<lparr>best_dist = Some n, best_params = Some p, best_aic = a\<rparr> else b)
           (seen @ [(n, p, a)])"
proof (cases "float_lt a (best_aic b)")
  case True
  have below: "float_lt a PosInf" using True by (rule float_lt_PosInf)
  have none_below: "\<forall>c \<in> set seen. \<not> float_lt (snd (snd c)) a \<and> snd (snd c) \<noteq> a"
    using assms
  proof
    assume "unselected b seen"
    then have "\<forall>c \<in> set seen. \<not> float_lt (snd (snd c)) PosInf"
      by (simp add: unselected_def)
    then show ?thesis using below float_lt_PosInf by blast
  next
    assume "selects b seen"
    then have "\<forall>c \<in> set seen. \<not> float_lt (snd (snd c)) (best_aic b)"
      by (auto simp: selects_def)
    then show ?thesis using True float_lt_trans by blast
  qed
  have "seen @ [(n, p, a)] = seen @ (n, p, a) # []" by simp
  then have "selects \<lparr>best_dist = Some n, best_params = Some p, best_aic = a\<rparr>
      (seen @ [(n, p, a)])"
    using below none_below float_lt_irrefl
    unfolding selects_def by (intro exI [of _ n] exI [of _ p] exI [of _ seen] exI [of _ "[]"]) auto
  with True show ?thesis by simp
next
  case False
  from assms show ?thesis
  proof
    assume "unselected b seen"
    with False have "unselected b (seen @ [(n, p, a)])"
      by (auto simp: unselected_def)
    with False show ?thesis by simp
  next
    assume "selects b seen"
    then obtain d q pre post where
      d: "best_dist b = Some d" and q: "best_params b = Some q" and
      split: "seen = pre @ (d, q, best_aic b) # post" and
      rest: "float_lt (best_aic b) PosInf"
        "\<forall>c \<in> set seen. \<not> float_lt (snd (snd c)) (best_aic b)"
        "\<forall>c \<in> set pre. snd (snd c) \<noteq> best_aic b"
      unfolding selects_def by blast
    have "seen @ [(n, p, a)] = pre @ (d, q, best_aic b) # (post @ [(n, p, a)])"
      using split by simp
    then have "selects b (seen @ [(n, p, a)])"
      using False d q rest
      unfolding selects_def
      by (intro exI [of _ d] exI [of _ q] exI [of _ pre] exI [of _ "post @ [(n, p, a)]"]) auto
    with False show ?thesis by simp
  qed
qed

lemma fit_loop_selects:
  "map (score st data) ds = map Inr cands \<Longrightarrow> selects b seen \<or> unselected b seen \<Longrightarrow>
     \<exists>b'. fit_loop st data ds b = Inr b'
       \<and> (selects b' (seen @ cands) \<or> unselected b' (seen @ cands))"
proof (induction ds arbitrary: b seen cands)
  case Nil
  then show ?case by simp
next
  case (Cons d ds)
  from Cons.prems(1) obtain c cs where cands: "cands = c # cs"
    and sc: "score st data d = Inr c" and rest: "map (score st data) ds = map Inr cs"
    by (cases cands) auto
  obtain n p a where c: "c = (n, p, a)" by (cases c) auto
  let ?b = "if float_lt a (best_aic b)
            then \<lparr>best_dist = Some n, best_params = Some p, best_aic = a\<rparr> else b"
  have "selects ?b (seen @ [(n, p, a)]) \<or> unselected ?b (seen @ [(n, p, a)])"
    using Cons.prems(2) by (rule selects_step)
  from Cons.IH [OF rest this] obtain b' where
    "fit_loop st data ds ?b = Inr b'" and
    "selects b' ((seen @ [(n, p, a)]) @ cs) \<or> unselected b' ((seen @ [(n, p, a)]) @ cs)"
    by blast
  then show ?case using sc c cands by simp
qed

lemma score_Inr:
  "score st data d = Inr c \<Longrightarrow>
     \<exists>p ll. c = (d, p, aic_of st (length p) ll) \<and> st_fit st d data = Inr p
       \<and> st_logpdf_sum st d data p = Inr ll"
  by (auto simp: score_def split: sum.splits)

lemma fit_loop_Inl:
  "(fit_loop st data ds b = Inl e)
     = (\<exists>ds1 d ds2. ds = ds1 @ d # ds2 \<and> (\<forall>x \<in> set ds1. \<exists>c. score st data x = Inr c)
          \<and> score st data d = Inl e)"
proof (induction ds arbitrary: b)
  case Nil
  then show ?case by simp
next
  case (Cons x xs)
  show ?case
  proof (cases "score st data x")
    case (Inl e')
    have "(\<exists>ds1 d ds2. x # xs = ds1 @ d # ds2 \<and> (\<forall>y \<in> set ds1. \<exists>c. score st data y = Inr c)
          \<and> score st data d = Inl e) = (e' = e)"
    proof
      assume "\<exists>ds1 d ds2. x # xs = ds1 @ d # ds2
          \<and> (\<forall>y \<in> set ds1. \<exists>c. score st data y = Inr c) \<and> score st data d = Inl e"
      then obtain ds1 d ds2 where *: "x # xs = ds1 @ d # ds2"
        "\<forall>y \<in> set ds1. \<exists>c. score st data y = Inr c" "score st data d = Inl e" by blast
      show "e' = e"
      proof (cases ds1)
        case Nil
        with * Inl show ?thesis by simp
      next
        case (Cons y ys)
        with * Inl show ?thesis by auto
      qed
    next
      assume "e' = e"
      then have "x # xs = [] @ x # xs \<and> (\<forall>y \<in> set []. \<exists>c. score st data y = Inr c)
          \<and> score st data x = Inl e" using Inl by simp
      then show "\<exists>ds1 d ds2. x # xs = ds1 @ d # ds2
          \<and> (\<forall>y \<in> set ds1. \<exists>c. score st data y = Inr c) \<and> score st data d = Inl e"
        by blast
    qed
    with Inl show ?thesis by simp
  next
    case (Inr c)
    obtain n p a where c: "c = (n, p, a)" by (cases c) auto
    have "(\<exists>ds1 d ds2. x # xs = ds1 @ d # ds2 \<and> (\<forall>y \<in> set ds1. \<exists>c. score st data y = Inr c)
          \<and> score st data d = Inl e)
       = (\<exists>ds1 d ds2. xs = ds1 @ d # ds2 \<and> (\<forall>y \<in> set ds1. \<exists>c. score st data y = Inr c)
          \<and> score st data d = Inl e)"
    proof
      assume "\<exists>ds1 d ds2. x # xs = ds1 @ d # ds2
          \<and> (\<forall>y \<in> set ds1. \<exists>c. score st data y = Inr c) \<and> score st data d = Inl e"
      then obtain ds1 d ds2 where *: "x # xs = ds1 @ d # ds2"
        "\<forall>y \<in> set ds1. \<exists>c. score st data y = Inr c" "score st data d = Inl e" by blast
      show "\<exists>ds1 d ds2. xs = ds1 @ d # ds2
          \<and> (\<forall>y \<in> set ds1. \<exists>c. score st data y = Inr c) \<and> score st data d = Inl e"
      proof (cases ds1)
        case Nil
        with * Inr show ?thesis by simp
      next
        case (Cons y ys)
        with * have "xs = ys @ d # ds2" "\<forall>y \<in> set ys. \<exists>c. score st data y = Inr c" by auto
        with *(3) show ?thesis by blast
      qed
    next
      assume "\<exists>ds1 d ds2. xs = ds1 @ d # ds2
          \<and> (\<forall>y \<in> set ds1. \<exists>c. score st data y = Inr c) \<and> score st data d = Inl e"
      then obtain ds1 d ds2 where *: "xs = ds1 @ d # ds2"
        "\<forall>y \<in> set ds1. \<exists>c. score st data y = Inr c" "score st data d = Inl e" by blast
      then have "x # xs = (x # ds1) @ d # ds2
          \<and> (\<forall>y \<in> set (x # ds1). \<exists>c. score st data y = Inr c)" using Inr by (cases c) auto
      with *(3) show "\<exists>ds1 d ds2. x # xs = ds1 @ d # ds2
          \<and> (\<forall>y \<in> set ds1. \<exists>c. score st data y = Inr c) \<and> score st data d = Inl e"
        by blast
    qed
    with Inr c Cons.IH show ?thesis by simp
  qed
qed

lemma fit_loop_Inr:
  "(\<exists>b'. fit_loop st data ds b = Inr b') = (\<forall>d \<in> set ds. \<exists>c. score st data d = Inr c)"
proof (induction ds arbitrary: b)
  case Nil
  then show ?case by simp
next
  case (Cons x xs)
  show ?case
  proof (cases "score st data x")
    case (Inl e)
    then show ?thesis by auto
  next
    case (Inr c)
    obtain n p a where "c = (n, p, a)" by (cases c) auto
    with Inr Cons.IH show ?thesis by simp
  qed
qed


text \<open>
  Claim C2, as amended. When no family raises, every family of the catalogue is scored,
  in the order norm, expon, pareto, lognorm, gamma, beta, uniform, dweibull: its
  parameters are those \<open>fit\<close> gives on the non-missing values, and its AIC is the float64
  value of \<open>2 * k - 2 * ll\<close> for the number \<open>k\<close> of these parameters and the
  log-likelihood \<open>ll\<close> at them. When moreover some candidate's AIC is below plus
  infinity, the worker returns the candidate of least AIC, the earliest listed among
  those of equal AIC.
\<close>

theorem worker_selects_minimum_aic:
  assumes "map (score st (dropna column)) dist_names = map Inr cands"
    and "\<exists>c \<in> set cands. float_lt (snd (snd c)) PosInf"
  shows "\<exists>b. worker st column = Inr b \<and> selects b cands
     \<and> map fst cands = dist_names
     \<and> (\<forall>c \<in> set cands. \<exists>p ll. c = (fst c, p, aic_of st (length p) ll)
            \<and> st_fit st (fst c) (dropna column) = Inr p
            \<and> st_logpdf_sum st (fst c) (dropna column) p = Inr ll)"
proof -
  let ?data = "dropna column"
  let ?init = "\<lparr>best_dist = None, best_params = None, best_aic = PosInf\<rparr>"
  have "selects ?init [] \<or> unselected ?init []"
    by (simp add: unselected_def)
  from fit_loop_selects [OF assms(1) this] obtain b where
    run: "fit_loop st ?data dist_names ?init = Inr b" and
    inv: "selects b cands \<or> unselected b cands"
    by auto
  have sel: "selects b cands"
    using inv assms(2) by (auto simp: unselected_def)
  have len: "length dist_names = length cands"
    using assms(1) by (metis length_map)
  have each: "score st ?data (dist_names ! i) = Inr (cands ! i)" if "i < length cands" for i
  proof -
    have "map (score st ?data) dist_names ! i = map Inr cands ! i"
      using assms(1) by simp
    then show ?thesis using that len by simp
  qed
  have names: "map fst cands = dist_names"
  proof (rule nth_equalityI)
    show "length (map fst cands) = length dist_names" using len by simp
  next
    fix i assume "i < length (map fst cands)"
    then have i: "i < length cands" by simp
    from score_Inr [OF each [OF i]] have "fst (cands ! i) = dist_names ! i" by auto
    with i show "map fst cands ! i = dist_names ! i" by simp
  qed
  have formula: "\<forall>c \<in> set cands. \<exists>p ll. c = (fst c, p, aic_of st (length p) ll)
            \<and> st_fit st (fst c) ?data = Inr p \<and> st_logpdf_sum st (fst c) ?data p = Inr ll"
  proof
    fix c assume "c \<in> set cands"
    then obtain i where i: "i < length cands" and c: "c = cands ! i"
      by (auto simp: in_set_conv_nth)
    from score_Inr [OF each [OF i]] obtain p ll where
      "cands ! i = (dist_names ! i, p, aic_of st (length p) ll)"
      "st_fit st (dist_names ! i) ?data = Inr p"
      "st_logpdf_sum st (dist_names ! i) ?data p = Inr ll"
      by blast
    with c show "\<exists>p ll. c = (fst c, p, aic_of st (length p) ll)
            \<and> st_fit st (fst c) ?data = Inr p \<and> st_logpdf_sum st (fst c) ?data p = Inr ll"
      by auto
  qed
  from run sel names formula show ?thesis by (auto simp: worker_def)
qed

text \<open>
  With the first example behaviour: \<open>norm\<close> and \<open>gamma\<close> have the least AIC, 44, and
  \<open>norm\<close>, listed first, is returned.
\<close>

lemma scores_all_fit:
  "map (score stats_all_fit (dropna ten_values)) dist_names
     = map Inr [(''norm'', [Finite 0, Finite 1], Finite 44),
                (''expon'', [Finite 0, Finite 1], Finite 64),
                (''pareto'', [Finite 0, Finite 1], Finite 64),
                (''lognorm'', [Finite 0, Finite 1], Finite 64),
                (''gamma'', [Finite 1, Finite 0, Finite 1], Finite 44),
                (''beta'', [Finite 0, Finite 1], Finite 64),
                (''uniform'', [Finite 0, Finite 1], Finite 64),
                (''dweibull'', [Finite 0, Finite 1], Finite 64)]"
  by (simp add: dist_names_def score_def stats_all_fit_def aic_of_def int_minus_float_def
      float_twice_def)

theorem worker_selects_minimum_aic_witness:
  "worker stats_all_fit ten_values
     = Inr \<lparr>best_dist = Some ''norm'', best_params = Some [Finite 0, Finite 1],
            best_aic = Finite 44\<rparr>
   \<and> selects \<lparr>best_dist = Some ''norm'', best_params = Some [Finite 0, Finite 1],
            best_aic = Finite 44\<rparr>
        [(''norm'', [Finite 0, Finite 1], Finite 44),
         (''expon'', [Finite 0, Finite 1], Finite 64),
         (''pareto'', [Finite 0, Finite 1], Finite 64),
         (''lognorm'', [Finite 0, Finite 1], Finite 64),
         (''gamma'', [Finite 1, Finite 0, Finite 1], Finite 44),
         (''beta'', [Finite 0, Finite 1], Finite 64),
         (''uniform'', [Finite 0, Finite 1], Finite 64),
         (''dweibull'', [Finite 0, Finite 1], Finite 64)]"
proof -
  have run: "worker stats_all_fit ten_values
     = Inr \<lparr>best_dist = Some ''norm'', best_params = Some [Finite 0, Finite 1],
            best_aic = Finite 44\<rparr>"
    by (simp add: worker_def dist_names_def score_def stats_all_fit_def aic_of_def
        int_minus_float_def float_twice_def)
  have below: "\<exists>c \<in> set [(''norm'', [Finite 0, Finite 1], Finite 44),
                (''expon'', [Finite 0, Finite 1], Finite 64),
                (''pareto'', [Finite 0, Finite 1], Finite 64),
                (''lognorm'', [Finite 0, Finite 1], Finite 64),
                (''gamma'', [Finite 1, Finite 0, Finite 1], Finite 44),
                (''beta'', [Finite 0, Finite 1], Finite 64),
                (''uniform'', [Finite 0, Finite 1], Finite 64),
                (''dweibull'', [Finite 0, Finite 1], Finite 64)]. float_lt (snd (snd c)) PosInf"
    by simp
  from worker_selects_minimum_aic [OF scores_all_fit below] run
  show ?thesis by auto
qed

text \<open>
  The claim as first stated fails on a column of ten values for which \<open>norm\<close> fits, with
  AIC 44, and \<open>expon\<close> raises: the worker ends with the error and selects no candidate.
\<close>

theorem raising_candidate_counterexample:
  "length (dropna ten_values) = 10
   \<and> score stats_expon_raises (dropna ten_values) ''norm''
     = Inr (''norm'', [Finite 0, Finite 1], Finite 44)
   \<and> score stats_expon_raises (dropna ten_values) ''expon'' = Inl OtherError
   \<and> worker stats_expon_raises ten_values = Inl OtherError"
  by (simp add: worker_def dist_names_def score_def stats_expon_raises_def stats_all_fit_def
      aic_of_def int_minus_float_def float_twice_def dropna_def ten_values_def)

text \<open>
  Claim C1, as amended. The fit is refused with a message, and nothing is raised, exactly
  when the chosen frame has fewer than 10 rows, rows with a missing value counted. When
  it runs, it fails, raising the error, exactly when some family raises during its fit or
  its likelihood: the first such family in the catalogue ends the loop with its error,
  whatever the families before it gave. It hands over a result exactly when no family
  raises.
\<close>

theorem fit_outcome:
  "(best_fitted_distribution st column = None) = (length column < 10)
   \<and> (\<forall>e. (best_fitted_distribution st column = Some (Inl e))
        = (10 \<le> length column
           \<and> (\<exists>ds1 d ds2. dist_names = ds1 @ d # ds2
                \<and> (\<forall>x \<in> set ds1. \<exists>c. score st (dropna column) x = Inr c)
                \<and> score st (dropna column) d = Inl e)))
   \<and> ((\<exists>b. best_fitted_distribution st column = Some (Inr b))
        = (10 \<le> length column
           \<and> (\<forall>d \<in> set dist_names. \<exists>c. score st (dropna column) d = Inr c)))"
proof (cases "length column < 10")
  case True
  then show ?thesis
    by (simp add: best_fitted_distribution_def show_column_selection_dialog_def)
next
  case False
  then have run: "best_fitted_distribution st column = Some (worker st column)"
    by (simp add: best_fitted_distribution_def show_column_selection_dialog_def)
  show ?thesis
    using False
    by (simp add: run worker_def fit_loop_Inl fit_loop_Inr)
qed

theorem fit_outcome_witness:
  "best_fitted_distribution stats_all_fit (replicate 9 (Finite 1)) = None
   \<and> (\<exists>b. best_fitted_distribution stats_all_fit ten_values = Some (Inr b))
   \<and> best_fitted_distribution stats_expon_raises ten_values = Some (Inl OtherError)"
proof -
  have one: "best_fitted_distribution stats_all_fit (replicate 9 (Finite 1)) = None"
    using fit_outcome [of stats_all_fit "replicate 9 (Finite 1)"] by simp
  have "\<forall>d \<in> set dist_names. \<exists>c. score stats_all_fit (dropna ten_values) d = Inr c"
    by (simp add: score_def stats_all_fit_def)
  then have two: "\<exists>b. best_fitted_distribution stats_all_fit ten_values = Some (Inr b)"
    using fit_outcome [of stats_all_fit ten_values] by (simp add: ten_values_def)
  have "dist_names = [''norm''] @ ''expon'' # [''pareto'', ''lognorm'', ''gamma'', ''beta'',
       ''uniform'', ''dweibull'']
     \<and> (\<forall>x \<in> set [''norm'']. \<exists>c. score stats_expon_raises (dropna ten_values) x = Inr c)
     \<and> score stats_expon_raises (dropna ten_values) ''expon'' = Inl OtherError"
    by (simp add: dist_names_def score_def stats_expon_raises_def stats_all_fit_def)
  then have "\<exists>ds1 d ds2. dist_names = ds1 @ d # ds2
     \<and> (\<forall>x \<in> set ds1. \<exists>c. score stats_expon_raises (dropna ten_values) x = Inr c)
     \<and> score stats_expon_raises (dropna ten_values) d = Inl OtherError"
    by blast
  moreover have "10 \<le> length ten_values" by (simp add: ten_values_def)
  ultimately have three:
    "best_fitted_distribution stats_expon_raises ten_values = Some (Inl OtherError)"
    using fit_outcome [of stats_expon_raises ten_values] by blast
  from one two three show ?thesis by (simp only: simp_thms)
qed

text \<open>
  The claim as first stated fails on a column of ten values for which \<open>norm\<close> fits and
  \<open>expon\<close> raises: the fit fails. It also fails on a column of ten rows with nine
  values: the fit runs and hands over a result.
\<close>

theorem one_candidate_raises_counterexample:
  "length (dropna ten_values) = 10
   \<and> score stats_expon_raises (dropna ten_values) ''norm''
     = Inr (''norm'', [Finite 0, Finite 1], Finite 44)
   \<and> best_fitted_distribution stats_expon_raises ten_values = Some (Inl OtherError)
   \<and> length (dropna nine_values) = 9
   \<and> best_fitted_distribution stats_all_fit nine_values
     = Some (Inr \<lparr>best_dist = Some ''norm'', best_params = Some [Finite 0, Finite 1],
                  best_aic = Finite 44\<rparr>)"
  by (simp add: best_fitted_distribution_def show_column_selection_dialog_def worker_def
      dist_names_def score_def stats_expon_raises_def stats_all_fit_def aic_of_def int_minus_float_def float_twice_def dropna_def
      ten_values_def nine_values_def)

section \<open>Properties of the table cache\<close>

lemma cache_get_Some: "(cache_get slot key = Some v) = (slot = Some (key, v))"
  by (auto simp: cache_get_def split: option.splits)

lemma get_df_hit:
  "df_cache s = Some ((self, t), v) \<Longrightarrow> get_df w self t s = (Inr v, s)"
  by (simp add: get_df_def cache_get_def)

lemma get_df_stores:
  "get_df w self t s = (Inr v, s1) \<Longrightarrow> df_cache s1 = Some ((self, t), v)"
  by (auto simp: get_df_def cache_get_Some split: option.splits sum.splits)

lemma get_df_views: "get_df w self t s = (r, s1) \<Longrightarrow> views s1 = views s \<and> view_cache s1 = view_cache s"
  by (auto simp: get_df_def split: option.splits sum.splits)

lemma view_hit:
  "view_cache s = Some ((self, t, c, ord, q), v) \<Longrightarrow>
     get_filtered_sorted_df w self t c ord q s = (Inr v, s)"
  by (simp add: get_filtered_sorted_df_def cache_get_def)

lemma body_views:
  "get_filtered_sorted_df_body w self t c ord q s = (r, s1) \<Longrightarrow>
     views s1 = views s \<and> view_cache s1 = view_cache s"
  by (auto simp: get_filtered_sorted_df_body_def split: prod.splits sum.splits dest: get_df_views)

lemma view_stores:
  "get_filtered_sorted_df w self t c ord q s = (Inr v, s1) \<Longrightarrow>
     view_cache s1 = Some ((self, t, c, ord, q), v)"
  by (auto simp: get_filtered_sorted_df_def cache_get_Some split: option.splits sum.splits prod.splits)

text \<open>A key misses exactly when the slot is empty or holds another key.\<close>

lemma cache_get_None:
  "(cache_get slot key = None) = (slot = None \<or> (\<exists>k v. slot = Some (k, v) \<and> k \<noteq> key))"
  by (auto simp: cache_get_def split: option.splits)

text \<open>A body that raises leaves the slot as it was: only the count of reads changes.\<close>

lemma get_df_raises:
  "cache_get (df_cache s) (self, t) = None \<Longrightarrow> get_df_body w self (loads s) t = Inl e \<Longrightarrow>
     get_df w self t s = (Inl e, s\<lparr>loads := loads s + 1\<rparr>)"
  by (simp add: get_df_def)

text \<open>
  Claim C3. For \<open>get_df\<close> and for \<open>get_filtered_sorted_df\<close>: a call that returned a value,
  repeated with the same key on the state it left, returns that value and leaves the
  state as it is, so neither body runs and nothing is read again. A call whose key is
  not the stored one (an empty slot, or another key) and whose body returns a value runs
  the body once, which the counters \<open>loads\<close> and \<open>views\<close> show, and leaves the slot
  holding the new key and value alone, whatever it held before.
\<close>

theorem single_slot_cache:
  "(get_df w self t s = (Inr v, s1) \<longrightarrow> get_df w self t s1 = (Inr v, s1))
   \<and> (cache_get (df_cache s) (self, t) = None \<and> get_df_body w self (loads s) t = Inr v \<longrightarrow>
        get_df w self t s
          = (Inr v, s\<lparr>df_cache := Some ((self, t), v), loads := loads s + 1\<rparr>))
   \<and> (get_filtered_sorted_df w self t c ord q s = (Inr v, s1) \<longrightarrow>
        get_filtered_sorted_df w self t c ord q s1 = (Inr v, s1))
   \<and> (cache_get (view_cache s) (self, t, c, ord, q) = None
        \<and> get_filtered_sorted_df_body w self t c ord q (s\<lparr>views := views s + 1\<rparr>) = (Inr v, s1) \<longrightarrow>
        get_filtered_sorted_df w self t c ord q s
          = (Inr v, s1\<lparr>view_cache := Some ((self, t, c, ord, q), v)\<rparr>)
        \<and> views s1 = views s + 1)"
proof (intro conjI impI)
  assume "get_df w self t s = (Inr v, s1)"
  then show "get_df w self t s1 = (Inr v, s1)"
    by (rule get_df_hit [OF get_df_stores])
next
  assume "cache_get (df_cache s) (self, t) = None \<and> get_df_body w self (loads s) t = Inr v"
  then show "get_df w self t s
      = (Inr v, s\<lparr>df_cache := Some ((self, t), v), loads := loads s + 1\<rparr>)"
    by (simp add: get_df_def)
next
  assume "get_filtered_sorted_df w self t c ord q s = (Inr v, s1)"
  then show "get_filtered_sorted_df w self t c ord q s1 = (Inr v, s1)"
    by (rule view_hit [OF view_stores])
next
  assume a: "cache_get (view_cache s) (self, t, c, ord, q) = None
        \<and> get_filtered_sorted_df_body w self t c ord q (s\<lparr>views := views s + 1\<rparr>) = (Inr v, s1)"
  then show "get_filtered_sorted_df w self t c ord q s
          = (Inr v, s1\<lparr>view_cache := Some ((self, t, c, ord, q), v)\<rparr>)"
    by (simp add: get_filtered_sorted_df_def)
  from a show "views s1 = views s + 1"
    using body_views [of w self t c ord q "s\<lparr>views := views s + 1\<rparr>" "Inr v" s1] by simp
qed

theorem single_slot_cache_witness:
  "get_df demo_world demo_connection ''people'' empty_caches
     = (Inr people, empty_caches\<lparr>df_cache := Some ((demo_connection, ''people''), people), loads := 1\<rparr>)
   \<and> get_df demo_world demo_connection ''people''
        (empty_caches\<lparr>df_cache := Some ((demo_connection, ''people''), people), loads := 1\<rparr>)
     = (Inr people, empty_caches\<lparr>df_cache := Some ((demo_connection, ''people''), people), loads := 1\<rparr>)
   \<and> get_df demo_world (demo_connection\<lparr>object_id := 1\<rparr>) ''people''
        (empty_caches\<lparr>df_cache := Some ((demo_connection, ''people''), people), loads := 1\<rparr>)
     = (Inr people_later,
        empty_caches\<lparr>df_cache := Some ((demo_connection\<lparr>object_id := 1\<rparr>, ''people''), people_later),
          loads := 2\<rparr>)
   \<and> get_filtered_sorted_df demo_world demo_connection ''people'' None False None
        (empty_caches\<lparr>df_cache := Some ((demo_connection, ''people''), people), loads := 1\<rparr>)
     = (Inr people,
        empty_caches\<lparr>df_cache := Some ((demo_connection, ''people''), people), loads := 1,
          views := 1, view_cache := Some ((demo_connection, ''people'', None, False, None), people)\<rparr>)
   \<and> get_filtered_sorted_df demo_world demo_connection ''people'' None False None
        (empty_caches\<lparr>df_cache := Some ((demo_connection, ''people''), people), loads := 1,
          views := 1, view_cache := Some ((demo_connection, ''people'', None, False, None), people)\<rparr>)
     = (Inr people,
        empty_caches\<lparr>df_cache := Some ((demo_connection, ''people''), people), loads := 1,
          views := 1, view_cache := Some ((demo_connection, ''people'', None, False, None), people)\<rparr>)"
proof -
  let ?s1 = "empty_caches\<lparr>df_cache := Some ((demo_connection, ''people''), people), loads := 1\<rparr>"
  let ?c2 = "demo_connection\<lparr>object_id := 1\<rparr>"
  have body0: "get_df_body demo_world demo_connection (loads empty_caches) ''people'' = Inr people"
    by (simp add: get_df_body_def demo_world_def demo_connection_def sqlite_file_types_def
        empty_caches_def)
  have miss0: "cache_get (df_cache empty_caches) (demo_connection, ''people'') = None"
    by (simp add: cache_get_def empty_caches_def)
  have first: "get_df demo_world demo_connection ''people'' empty_caches = (Inr people, ?s1)"
    using single_slot_cache [of demo_world demo_connection "''people''" empty_caches people]
      body0 miss0 by (simp add: empty_caches_def)
  have second: "get_df demo_world demo_connection ''people'' ?s1 = (Inr people, ?s1)"
    using single_slot_cache [of demo_world demo_connection "''people''" empty_caches people ?s1]
      first by blast
  have body1: "get_df_body demo_world ?c2 (loads ?s1) ''people'' = Inr people_later"
    by (simp add: get_df_body_def demo_world_def demo_connection_def sqlite_file_types_def
        empty_caches_def)
  have miss1: "cache_get (df_cache ?s1) (?c2, ''people'') = None"
    by (simp add: cache_get_def empty_caches_def demo_connection_def)
  have third: "get_df demo_world ?c2 ''people'' ?s1
     = (Inr people_later, empty_caches\<lparr>df_cache := Some ((?c2, ''people''), people_later), loads := 2\<rparr>)"
    using single_slot_cache [of demo_world ?c2 "''people''" ?s1 people_later]
      body1 miss1 by (simp add: empty_caches_def)
  let ?s2 = "empty_caches\<lparr>df_cache := Some ((demo_connection, ''people''), people), loads := 1,
          views := 1, view_cache := Some ((demo_connection, ''people'', None, False, None), people)\<rparr>"
  have miss2: "cache_get (view_cache ?s1) (demo_connection, ''people'', None, False, None) = None"
    by (simp add: cache_get_def empty_caches_def)
  have body2: "get_filtered_sorted_df_body demo_world demo_connection ''people'' None False None
        (?s1\<lparr>views := views ?s1 + 1\<rparr>) = (Inr people, ?s1\<lparr>views := 1\<rparr>)"
    by (simp add: get_filtered_sorted_df_body_def get_df_def cache_get_def filter_sort_def
        apply_search_def empty_caches_def)
  have fourth: "get_filtered_sorted_df demo_world demo_connection ''people'' None False None ?s1
      = (Inr people, ?s2)"
    using single_slot_cache [of demo_world demo_connection "''people''" ?s1 people
        "?s1\<lparr>views := 1\<rparr>" None False None] miss2 body2
    by (simp add: empty_caches_def)
  have fifth: "get_filtered_sorted_df demo_world demo_connection ''people'' None False None ?s2
      = (Inr people, ?s2)"
    using single_slot_cache [of demo_world demo_connection "''people''" ?s1 people ?s2
        None False None] fourth by blast
  from first second third fourth fifth show ?thesis by (simp only: simp_thms)
qed

section \<open>The raw table under a view computation\<close>

text \<open>
  Claim C9. Once \<open>get_df\<close> has returned the raw table of a name, computing a view of
  that name with any sort column, order and search query, whatever its outcome, leaves
  the cached raw table in place: \<open>get_df\<close> for the name returns the same table, with
  the same columns and rows, and the file is not read again. Frames are values here
  because the view is built with operations that return a new frame (\<open>df[...]\<close> and
  \<open>sort_values\<close> without \<open>inplace\<close>) and nothing assigns into a frame.
\<close>

theorem raw_table_unchanged:
  assumes "get_df w self t s0 = (Inr raw, s1)"
    and "get_filtered_sorted_df w self t c ord q s1 = (r, s2)"
  shows "get_df w self t s2 = (Inr raw, s2) \<and> df_cache s2 = df_cache s1 \<and> loads s2 = loads s1"
proof -
  have stored: "df_cache s1 = Some ((self, t), raw)"
    using assms(1) by (rule get_df_stores)
  then have hit: "get_df w self t (s1\<lparr>views := views s1 + 1\<rparr>) = (Inr raw, s1\<lparr>views := views s1 + 1\<rparr>)"
    by (simp add: get_df_hit)
  have "df_cache s2 = df_cache s1 \<and> loads s2 = loads s1"
    using assms(2) hit
    by (auto simp: get_filtered_sorted_df_def get_filtered_sorted_df_body_def
        split: option.splits sum.splits prod.splits)
  with stored show ?thesis by (simp add: get_df_hit)
qed


theorem raw_table_unchanged_witness:
  "get_df demo_world demo_connection ''people''
     (snd (get_filtered_sorted_df demo_world demo_connection ''people'' (Some ''age'') False (Some ''a'')
        (snd (get_df demo_world demo_connection ''people'' empty_caches))))
   = (Inr people,
      snd (get_filtered_sorted_df demo_world demo_connection ''people'' (Some ''age'') False (Some ''a'')
        (snd (get_df demo_world demo_connection ''people'' empty_caches))))"
proof -
  let ?s1 = "snd (get_df demo_world demo_connection ''people'' empty_caches)"
  have "get_df demo_world demo_connection ''people'' empty_caches = (Inr people, ?s1)"
    by (simp add: get_df_def cache_get_def get_df_body_def demo_world_def demo_connection_def
        sqlite_file_types_def empty_caches_def)
  then show ?thesis
    using raw_table_unchanged [of demo_world demo_connection "''people''" empty_caches people ?s1
        "Some ''age''" False "Some ''a''"
        "fst (get_filtered_sorted_df demo_world demo_connection ''people'' (Some ''age'') False (Some ''a'') ?s1)"
        "snd (get_filtered_sorted_df demo_world demo_connection ''people'' (Some ''age'') False (Some ''a'') ?s1)"]
    by simp
qed

section \<open>Sorting the view\<close>

text \<open>
  The sort step runs for a sort column that is a non-empty label; with no label, or the
  empty string as label, the view is the filtered table in load order. For a label that
  names one column the view is the filtered table with its rows as the library's
  \<open>sort_values\<close> reorders them, or the exception the library raises.
\<close>

lemma columns_apply_search: "columns (apply_search w df query) = columns df"
  by (simp add: apply_search_def search_rows_def boolean_index_def split: option.splits)

lemma filter_sort_no_label:
  "filter_sort w df None ascending query = Inr (apply_search w df query)"
  by (simp add: filter_sort_def Let_def)

lemma filter_sort_empty_label:
  "filter_sort w df (Some []) ascending query = Inr (apply_search w df query)"
  by (simp add: filter_sort_def Let_def)

lemma apply_search_no_query: "apply_search w df None = df"
  by (simp add: apply_search_def)

lemma filter_sort_label:
  assumes "c \<noteq> []" and "c \<in> set (columns df)" and "count_list (columns df) c \<le> 1"
  shows "filter_sort w df (Some c) ascending query =
     (case order_rows w (index_of c (columns df)) ascending (rows (apply_search w df query)) of
        Inl e \<Rightarrow> Inl e
      | Inr sorted_rows \<Rightarrow> Inr ((apply_search w df query)\<lparr>rows := sorted_rows\<rparr>))"
  using assms by (simp add: filter_sort_def Let_def sort_values_def columns_apply_search)

text \<open>
  A table whose only column has the empty string as label, asked to be sorted on it in
  ascending order, keeps its rows in load order, 2 before 1.
\<close>

lemma empty_label_not_sorted:
  "[] \<in> set (columns unnamed_column)
   \<and> filter_sort demo_world unnamed_column (Some []) True None = Inr unnamed_column
   \<and> rows unnamed_column = [[IntCell 2], [IntCell 1]]"
  by (simp add: unnamed_column_def filter_sort_def Let_def apply_search_def)

text \<open>The example world sorts \<open>people\<close> on \<open>age\<close>, in both directions.\<close>

lemma people_by_age:
  "filter_sort demo_world people (Some ''age'') True None
     = Inr (people\<lparr>rows := [[IntCell 2, StrCell ''Bob'', IntCell 25],
                            [IntCell 4, StrCell ''Eve'', IntCell 25],
                            [IntCell 1, StrCell ''Ada'', IntCell 36],
                            [IntCell 3, StrCell ''adam'', IntCell 36]]\<rparr>)
   \<and> filter_sort demo_world people (Some ''age'') False (Some ''a'')
     = Inr (people\<lparr>rows := [[IntCell 1, StrCell ''Ada'', IntCell 36],
                            [IntCell 3, StrCell ''adam'', IntCell 36]]\<rparr>)"
  by code_simp

section \<open>Loading delimited text\<close>

text \<open>
  Claim C5. The comma parse is the first call. When it succeeds its frame is the result
  and no other call is made. When it raises \<open>EmptyDataError\<close> the result is the frame
  with no rows, and no other call is made. The semicolon parse with the lenient policy
  is made exactly when the comma parse raises a parse failure that the handler catches
  (\<open>ParserError\<close>, another \<open>ValueError\<close> or a \<open>TypeError\<close>); it is made once and its
  outcome is the result. In every other case the comma parse is the only call.
\<close>

theorem csv_delimiter_fallback:
  "fst (hd (snd (get_csv_dataframe rd))) = CHR '',''
   \<and> (\<forall>df. rd CHR '','' OnBadLinesError = Inr df \<longrightarrow>
        get_csv_dataframe rd = (Inr df, [(CHR '','', OnBadLinesError)]))
   \<and> (rd CHR '','' OnBadLinesError = Inl EmptyDataError \<longrightarrow>
        get_csv_dataframe rd = (Inr \<lparr>columns = [], rows = []\<rparr>, [(CHR '','', OnBadLinesError)]))
   \<and> ((\<exists>e. rd CHR '','' OnBadLinesError = Inl e \<and> (e = ParserError \<or> e = ValueError \<or> e = TypeError))
        = (snd (get_csv_dataframe rd) = [(CHR '','', OnBadLinesError), (CHR '';'', OnBadLinesWarn)]))
   \<and> (snd (get_csv_dataframe rd) = [(CHR '','', OnBadLinesError), (CHR '';'', OnBadLinesWarn)] \<longrightarrow>
        fst (get_csv_dataframe rd) = rd CHR '';'' OnBadLinesWarn)
   \<and> (snd (get_csv_dataframe rd) \<noteq> [(CHR '','', OnBadLinesError), (CHR '';'', OnBadLinesWarn)] \<longrightarrow>
        snd (get_csv_dataframe rd) = [(CHR '','', OnBadLinesError)])"
  by (cases "rd CHR '','' OnBadLinesError")
     (auto simp: get_csv_dataframe_def is_ValueError_def empty_dataframe_def)

theorem csv_delimiter_fallback_witness:
  "get_csv_dataframe (read_csv demo_world 0 ''people.csv'')
     = (Inr people, [(CHR '','', OnBadLinesError), (CHR '';'', OnBadLinesWarn)])
   \<and> get_csv_dataframe (\<lambda>sep policy. Inr people) = (Inr people, [(CHR '','', OnBadLinesError)])
   \<and> get_csv_dataframe (\<lambda>sep policy. Inl EmptyDataError :: py_exc + cell dataframe)
       = (Inr \<lparr>columns = [], rows = []\<rparr>, [(CHR '','', OnBadLinesError)])"
proof -
  let ?rd = "read_csv demo_world 0 ''people.csv''"
  note fallback = csv_delimiter_fallback [of ?rd]
  have comma: "?rd CHR '','' OnBadLinesError = Inl ParserError"
    by (simp add: demo_world_def)
  have semicolon: "?rd CHR '';'' OnBadLinesWarn = Inr people"
    by (simp add: demo_world_def)
  have "\<exists>e. ?rd CHR '','' OnBadLinesError = Inl e \<and> (e = ParserError \<or> e = ValueError \<or> e = TypeError)"
    using comma by blast
  then have calls: "snd (get_csv_dataframe ?rd)
      = [(CHR '','', OnBadLinesError), (CHR '';'', OnBadLinesWarn)]"
    using fallback by blast
  then have "fst (get_csv_dataframe ?rd) = ?rd CHR '';'' OnBadLinesWarn"
    using fallback by blast
  with calls semicolon have one: "get_csv_dataframe ?rd
     = (Inr people, [(CHR '','', OnBadLinesError), (CHR '';'', OnBadLinesWarn)])"
    by (simp add: prod_eq_iff)
  have two: "get_csv_dataframe (\<lambda>sep policy. Inr people) = (Inr people, [(CHR '','', OnBadLinesError)])"
    using csv_delimiter_fallback [of "\<lambda>sep policy. Inr people"] by blast
  have three: "get_csv_dataframe (\<lambda>sep policy. Inl EmptyDataError :: py_exc + cell dataframe)
       = (Inr \<lparr>columns = [], rows = []\<rparr>, [(CHR '','', OnBadLinesError)])"
    using csv_delimiter_fallback [of "\<lambda>sep policy. Inl EmptyDataError :: py_exc + cell dataframe"]
    by blast
  from one two three show ?thesis by (simp only: simp_thms)
qed

section \<open>Page navigation\<close>

text \<open>
  Claim C6. With a file open and a view of at least one page, advancing from page \<open>p\<close>
  leaves the viewer on page \<open>(p mod total_pages) + 1\<close> and retreating on page
  \<open>((p - 2) mod total_pages) + 1\<close>; from the last page advancing gives page 1 and from
  page 1 retreating gives the last page. The handler acts only when there are at least
  two pages; a view of one page has page 1 as its only page, where both formulas give 1,
  the page it stays on.
\<close>

theorem on_page_change_wraps:
  assumes "db s \<noteq> None" and "1 \<le> total_pages s"
    and "1 \<le> current_page s" and "current_page s \<le> total_pages s"
    and "ev \<noteq> ID_BACKWARD"
  shows "current_page (fst (on_page_change ev sel s)) = (current_page s mod total_pages s) + 1
    \<and> current_page (fst (on_page_change ID_BACKWARD sel s))
        = ((current_page s - 2) mod total_pages s) + 1
    \<and> (current_page s = total_pages s \<longrightarrow> current_page (fst (on_page_change ev sel s)) = 1)
    \<and> (current_page s = 1 \<longrightarrow>
          current_page (fst (on_page_change ID_BACKWARD sel s)) = total_pages s)"
proof (cases "total_pages s > 1")
  case True
  have minus1: "(- 1) mod total_pages s = total_pages s - 1"
    using True by (simp add: zmod_minus1)
  show ?thesis
    using assms True minus1 by (simp add: on_page_change_def Let_def)
next
  case False
  with assms have one: "total_pages s = 1" "current_page s = 1" by simp_all
  show ?thesis
    using assms one by (simp add: on_page_change_def)
qed

theorem on_page_change_wraps_witness:
  "current_page (fst (on_page_change ID_FORWARD ''t'' (demo_viewer\<lparr>current_page := 4\<rparr>))) = 1
   \<and> current_page (fst (on_page_change ID_BACKWARD ''t'' (demo_viewer\<lparr>current_page := 1\<rparr>))) = 4
   \<and> current_page (fst (on_page_change ID_BUTTON ''t'' demo_viewer)) = 4
   \<and> current_page (fst (on_page_change ID_BACKWARD ''t'' demo_viewer)) = 2"
  using on_page_change_wraps [of "demo_viewer\<lparr>current_page := 4\<rparr>" ID_FORWARD "''t''"]
    on_page_change_wraps [of "demo_viewer\<lparr>current_page := 1\<rparr>" ID_FORWARD "''t''"]
    on_page_change_wraps [of demo_viewer ID_BUTTON "''t''"]
  by (simp add: demo_viewer_def)

section \<open>The search filter\<close>

text \<open>
  Claim C7. For a non-empty search query the view keeps exactly the rows in which the
  string of at least one cell contains the query, letter case set aside, in their order;
  every cell of the row is looked at through its string, whatever its type. The query
  is compared as plain text: no character of it has a special meaning. A query that
  differs from another only in letter case keeps the same rows. On text in which every
  code point has a single code point as its upper-case form, which all ASCII text is, a
  cell matches exactly when a contiguous part of its string agrees with the query letter
  by letter.
\<close>

theorem search_keeps_matching_rows:
  assumes "query \<noteq> []"
  shows "apply_search w df (Some query)
       = df\<lparr>rows := filter (\<lambda>r. \<exists>c \<in> set r. ci_contains w query (astype_str w c)) (rows df)\<rparr>
     \<and> filter_sort w df None order (Some query) = Inr (apply_search w df (Some query))
     \<and> (query' \<noteq> [] \<and> upper w query' = upper w query \<longrightarrow>
          apply_search w df (Some query') = apply_search w df (Some query))
     \<and> (\<forall>s. simple_case w query \<and> simple_case w s \<longrightarrow>
          ci_contains w query s = ci_substring w query s)"
proof -
  have "query' \<noteq> [] \<and> upper w query' = upper w query \<Longrightarrow>
      search_rows w query' df = search_rows w query df"
    by (simp add: search_rows_def contains_frame_def str_contains_def)
  then show ?thesis
    using assms
    by (auto simp: apply_search_def filter_sort_def Let_def search_rows_filter
        ci_contains_letters)
qed

theorem search_keeps_matching_rows_witness:
  "rows (apply_search demo_world people (Some ''AD''))
     = [[IntCell 1, StrCell ''Ada'', IntCell 36], [IntCell 3, StrCell ''adam'', IntCell 36]]
   \<and> rows (apply_search demo_world people (Some ''ad''))
     = rows (apply_search demo_world people (Some ''AD''))
   \<and> rows (apply_search demo_world people (Some ''6''))
     = [[IntCell 1, StrCell ''Ada'', IntCell 36], [IntCell 3, StrCell ''adam'', IntCell 36]]
   \<and> ci_substring demo_world ''AD'' ''adam''
   \<and> str_contains demo_world [CHR 0xC9] [CHR ''c'', CHR ''a'', CHR ''f'', CHR 0xE9]
   \<and> str_contains demo_world ''s'' [CHR 0xDF]"
proof -
  have q: "''AD'' \<noteq> []" by simp
  note filter = search_keeps_matching_rows [OF q, of demo_world people undefined "''ad''"]
  have u: "''ad'' \<noteq> [] \<and> upper demo_world ''ad'' = upper demo_world ''AD''"
    by code_simp
  have e: "rows (apply_search demo_world people (Some ''AD''))
     = [[IntCell 1, StrCell ''Ada'', IntCell 36], [IntCell 3, StrCell ''adam'', IntCell 36]]"
    by code_simp
  have s: "rows (apply_search demo_world people (Some ''6''))
     = [[IntCell 1, StrCell ''Ada'', IntCell 36], [IntCell 3, StrCell ''adam'', IntCell 36]]"
    by code_simp
  have same: "apply_search demo_world people (Some ''ad'')
      = apply_search demo_world people (Some ''AD'')"
    using filter u by blast
  have simple: "simple_case demo_world ''AD'' \<and> simple_case demo_world ''adam''"
    by code_simp
  have "ci_contains demo_world ''AD'' ''adam''"
    unfolding str_contains_ci [symmetric] by code_simp
  then have letters: "ci_substring demo_world ''AD'' ''adam''"
    using filter simple by blast
  have accent: "str_contains demo_world [CHR 0xC9]
      [CHR ''c'', CHR ''a'', CHR ''f'', CHR 0xE9]"
    by code_simp
  have sharp: "str_contains demo_world ''s'' [CHR 0xDF]"
    by code_simp
  from e s same letters accent sharp show ?thesis by (simp only: simp_thms)
qed

section \<open>Listing the tables of a database file\<close>

text \<open>
  Claim C8. For a database file whose catalogue can be read, the listing is the names
  that the catalogue gives for tables, in the catalogue's order, without those that carry
  the prefix \<open>sqlite_autoindex_\<close>: no listed name has the prefix, and every table of the
  catalogue whose name does not have it is listed.
\<close>

theorem sqlite_table_names:
  assumes "file_type self \<in> set sqlite_file_types"
    and "sqlite_master w (db_file self) = Inr catalogue"
  shows "\<exists>names. get_table_or_sheet_names w self = Inr names
     \<and> names = filter (\<lambda>n. \<not> prefix ''sqlite_autoindex_'' n)
                 (map snd (filter (\<lambda>row. fst row = ''table'') catalogue))
     \<and> (\<forall>n \<in> set names. \<not> prefix ''sqlite_autoindex_'' n)
     \<and> (\<forall>n. (''table'', n) \<in> set catalogue \<and> \<not> prefix ''sqlite_autoindex_'' n \<longrightarrow> n \<in> set names)
     \<and> subseq names (map snd catalogue)"
proof -
  let ?names = "get_sqlite_table_names catalogue"
  have eq: "?names = filter (\<lambda>n. \<not> prefix ''sqlite_autoindex_'' n)
                 (map snd (filter (\<lambda>row. fst row = ''table'') catalogue))"
    by (simp add: get_sqlite_table_names_def startswith_prefix)
  have res: "get_table_or_sheet_names w self = Inr ?names"
    using assms by (simp add: get_table_or_sheet_names_def)
  have sub: "subseq ?names (map snd catalogue)"
    unfolding eq
    by (rule subseq_order.trans [OF subseq_filter_left]) (simp add: subseq_map)
  have incl: "\<forall>n. (''table'', n) \<in> set catalogue \<and> \<not> prefix ''sqlite_autoindex_'' n \<longrightarrow> n \<in> set ?names"
    unfolding eq by force
  show ?thesis using eq res sub incl by auto
qed

theorem sqlite_table_names_witness:
  "get_table_or_sheet_names demo_world demo_connection
     = Inr [''people'', ''sqlite_sequence'', ''towns'']"
proof -
  have ft: "file_type demo_connection \<in> set sqlite_file_types"
    by (simp add: demo_connection_def sqlite_file_types_def)
  have cat: "sqlite_master demo_world (db_file demo_connection)
      = Inr [(''table'', ''people''), (''index'', ''sqlite_autoindex_people_1''),
             (''table'', ''sqlite_sequence''), (''table'', ''towns'')]"
    by (simp add: demo_world_def)
  from sqlite_table_names [OF ft cat] obtain names where
    res: "get_table_or_sheet_names demo_world demo_connection = Inr names" and
    names: "names = filter (\<lambda>n. \<not> prefix ''sqlite_autoindex_'' n)
        (map snd (filter (\<lambda>row. fst row = ''table'')
           [(''table'', ''people''), (''index'', ''sqlite_autoindex_people_1''),
            (''table'', ''sqlite_sequence''), (''table'', ''towns'')]))"
    by blast
  have "names = [''people'', ''sqlite_sequence'', ''towns'']"
    unfolding names by simp
  with res show ?thesis by simp
qed

section \<open>Clicking a column header\<close>

text \<open>
  Claim C10. A click on a header that is not the sort column makes it the sort column,
  ascending; a click on the sort column while ascending makes the order descending; a
  click on it while descending clears the sort column, so that the table is loaded in
  its original order. Every click sets the current page to 1, and the load that the
  click starts is for page 1 with the new sort column and order.
\<close>

theorem on_column_click_cycle:
  "(sort_column s \<noteq> Some c \<longrightarrow>
      sort_column (fst (on_column_click c sel s)) = Some c
      \<and> sort_order (fst (on_column_click c sel s)))
   \<and> (sort_column s = Some c \<and> sort_order s \<longrightarrow>
      sort_column (fst (on_column_click c sel s)) = Some c
      \<and> \<not> sort_order (fst (on_column_click c sel s)))
   \<and> (sort_column s = Some c \<and> \<not> sort_order s \<longrightarrow>
      sort_column (fst (on_column_click c sel s)) = None
      \<and> \<not> sort_order (fst (on_column_click c sel s)))
   \<and> current_page (fst (on_column_click c sel s)) = 1
   \<and> snd (on_column_click c sel s) = load_table_data sel (fst (on_column_click c sel s)) False
   \<and> req_page_number (snd (on_column_click c sel s)) = 1
   \<and> req_sort_column (snd (on_column_click c sel s)) = sort_column (fst (on_column_click c sel s))
   \<and> req_sort_order (snd (on_column_click c sel s)) = sort_order (fst (on_column_click c sel s))"
  by (simp add: on_column_click_def Let_def load_table_data_def)

theorem on_column_click_cycle_witness:
  "fst (on_column_click ''age'' ''people'' demo_viewer)
     = demo_viewer\<lparr>sort_column := Some ''age'', sort_order := True, current_page := 1\<rparr>
   \<and> fst (on_column_click ''age'' ''people'' (fst (on_column_click ''age'' ''people'' demo_viewer)))
     = demo_viewer\<lparr>sort_column := Some ''age'', sort_order := False, current_page := 1\<rparr>
   \<and> fst (on_column_click ''age'' ''people'' (fst (on_column_click ''age'' ''people''
        (fst (on_column_click ''age'' ''people'' demo_viewer)))))
     = demo_viewer\<lparr>sort_column := None, sort_order := False, current_page := 1\<rparr>"
  using on_column_click_cycle [of demo_viewer "''age''" "''people''"]
  by (simp add: on_column_click_def demo_viewer_def Let_def)

end
